theory Spec2Isabelle
  imports Complex_Main "HOL-Library.FSet" "HOL-Library.Word"
begin

section \<open>Data model\<close>

text \<open>
  The development embeds \<^verbatim>\<open>backend/src/logic/algorithm.ts\<close>: the functions
  \<^verbatim>\<open>toBucketSets\<close>, \<^verbatim>\<open>getBucketRange\<close>, \<^verbatim>\<open>practice\<close>, \<^verbatim>\<open>update\<close>,
  \<^verbatim>\<open>getHint\<close> and \<^verbatim>\<open>computeProgress\<close>.

  Conventions of the embedding.
  \<^item> A JavaScript string is a sequence of UTF-16 code units; \<^verbatim>\<open>length\<close> and indexing
    count code units.
  \<^item> Bucket numbers, array indices, day numbers and counts are non-negative integers
    (\<open>nat\<close>). The limits of the \<^verbatim>\<open>number\<close> type (exact integers up to \<open>2^53\<close>, array
    lengths up to \<open>2^32 - 1\<close>) are not part of the model.
  \<^item> A \<^verbatim>\<open>Set<Flashcard>\<close> is a mutable object. Objects live in a store: a reference is
    an address, the store maps an address to the finite set of cards the object holds,
    and \<open>nxt\<close> is the first address never allocated. Two references denote the same
    object iff they are equal, so sharing of a set between two maps is visible.
  \<^item> Membership in a \<^verbatim>\<open>Set<Flashcard>\<close> compares the identities of cards; the type \<open>'c\<close> of
    these identities is a parameter.
  \<^item> A \<^verbatim>\<open>Map<number, Set<Flashcard>>\<close> is the list of its entries in insertion order,
    each entry a bucket number and the reference of its set. The source never writes to
    the \<^verbatim>\<open>Map\<close> object it receives (only to the copy made by \<^verbatim>\<open>new Map(buckets)\<close>),
    therefore the entry list is passed by value.
\<close>

type_synonym jsstring = "16 word list"

definition js_lit :: "string \<Rightarrow> jsstring" where
  "js_lit s = map of_char s"

text \<open>
  Modelled from the spec: the class \<^verbatim>\<open>Flashcard\<close> is declared in \<^verbatim>\<open>flashcards.ts\<close>,
  which is not among the sources; the spec gives it the text fields \<open>front\<close>, \<open>back\<close>,
  \<open>hint\<close> and a list of tags.
\<close>

record Flashcard =
  front :: jsstring
  back' :: jsstring
  hint :: jsstring
  tags :: "jsstring list"

text \<open>
  Modelled from the spec: the enumeration \<^verbatim>\<open>AnswerDifficulty\<close> is declared in
  \<^verbatim>\<open>flashcards.ts\<close>, which is not among the sources; the spec gives it the variants
  Wrong, Hard and Easy. The enumeration is not checked at run time, so a caller can pass
  any other value; \<open>Unrecognized n\<close> stands for such a value.
\<close>

datatype AnswerDifficulty = Wrong | Hard | Easy | Unrecognized nat

datatype js_error = RangeError | TypeError

type_synonym ref = nat

record 'c heap =
  cells :: "ref \<Rightarrow> 'c fset"
  nxt :: ref

type_synonym BucketMap = "(nat \<times> ref) list"

subsection \<open>The operations of \<^verbatim>\<open>Set\<close> and \<^verbatim>\<open>Map\<close> that the source calls\<close>

definition new_Set :: "'c heap \<Rightarrow> 'c heap \<times> ref" where
  "new_Set h = (h\<lparr>cells := (cells h)(nxt h := {||}), nxt := Suc (nxt h)\<rparr>, nxt h)"

definition Set_has :: "'c heap \<Rightarrow> ref \<Rightarrow> 'c \<Rightarrow> bool" where
  "Set_has h s c = (c |\<in>| cells h s)"

definition Set_delete :: "'c heap \<Rightarrow> ref \<Rightarrow> 'c \<Rightarrow> 'c heap" where
  "Set_delete h s c = h\<lparr>cells := (cells h)(s := cells h s |-| {|c|})\<rparr>"

definition Set_add :: "'c heap \<Rightarrow> ref \<Rightarrow> 'c \<Rightarrow> 'c heap" where
  "Set_add h s c = h\<lparr>cells := (cells h)(s := finsert c (cells h s))\<rparr>"

definition Set_size :: "'c heap \<Rightarrow> ref \<Rightarrow> nat" where
  "Set_size h s = fcard (cells h s)"

definition Map_has :: "BucketMap \<Rightarrow> nat \<Rightarrow> bool" where
  "Map_has m k = (map_of m k \<noteq> None)"

definition Map_get :: "BucketMap \<Rightarrow> nat \<Rightarrow> ref option" where
  "Map_get m k = map_of m k"

text \<open>\<^verbatim>\<open>Map.prototype.set\<close>: an existing key keeps its position, a new key is appended.\<close>

fun Map_set :: "BucketMap \<Rightarrow> nat \<Rightarrow> ref \<Rightarrow> BucketMap" where
  "Map_set [] k v = [(k, v)]"
| "Map_set ((k', v') # m) k v = (if k' = k then (k, v) # m else (k', v') # Map_set m k v)"

section \<open>toBucketSets\<close>

text \<open>
  \<^verbatim>\<open>Math.max(...keys)\<close>: the maximum of the arguments, and \<open>-Infinity\<close> (here \<open>None\<close>)
  when there is no argument.
\<close>

fun Math_max :: "nat list \<Rightarrow> nat option" where
  "Math_max [] = None"
| "Math_max (k # ks) = (case Math_max ks of None \<Rightarrow> Some k | Some m \<Rightarrow> Some (max k m))"

text \<open>\<^verbatim>\<open>new Array(n).fill(null).map(() => new Set<Flashcard>())\<close>: \<open>n\<close> fresh empty sets.\<close>

fun fresh_sets :: "nat \<Rightarrow> 'c heap \<Rightarrow> 'c heap \<times> ref list" where
  "fresh_sets 0 h = (h, [])"
| "fresh_sets (Suc n) h =
     (let (h1, s) = new_Set h; (h2, ss) = fresh_sets n h1 in (h2, s # ss))"

text \<open>
  With no key, \<^verbatim>\<open>maxBucket\<close> is \<open>-Infinity\<close>, \<^verbatim>\<open>maxBucket + 1\<close> is \<open>-Infinity\<close> and
  \<^verbatim>\<open>new Array(-Infinity)\<close> throws a \<^verbatim>\<open>RangeError\<close>. In the \<^verbatim>\<open>forEach\<close> every
  \<^verbatim>\<open>bucketNumber\<close> is at most \<^verbatim>\<open>maxBucket\<close>, so the assignment is within the array.
\<close>

definition toBucketSets :: "'c heap \<Rightarrow> BucketMap \<Rightarrow> js_error + ('c heap \<times> ref list)" where
  "toBucketSets h buckets =
     (case Math_max (map fst buckets) of
        None \<Rightarrow> Inl RangeError
      | Some maxBucket \<Rightarrow>
          (let (h1, result) = fresh_sets (maxBucket + 1) h
           in Inr (h1, fold (\<lambda>(bucketNumber, flashcards) res. res[bucketNumber := flashcards])
                         buckets result)))"

section \<open>getBucketRange\<close>

record BucketRange =
  minBucket :: nat
  maxBucket :: nat

fun range_loop :: "'c heap \<Rightarrow> ref list \<Rightarrow> nat \<Rightarrow> nat option \<times> nat option
    \<Rightarrow> nat option \<times> nat option" where
  "range_loop h [] bucketIndex (mn, mx) = (mn, mx)"
| "range_loop h (cards # rest) bucketIndex (mn, mx) =
     range_loop h rest (Suc bucketIndex)
       (if Set_size h cards > 0
        then ((if mn = None then Some bucketIndex else mn), Some bucketIndex)
        else (mn, mx))"

definition getBucketRange :: "'c heap \<Rightarrow> ref list \<Rightarrow> BucketRange option" where
  "getBucketRange h buckets =
     (case range_loop h buckets 0 (None, None) of
        (Some mn, Some mx) \<Rightarrow> Some \<lparr>minBucket = mn, maxBucket = mx\<rparr>
      | _ \<Rightarrow> None)"

section \<open>practice\<close>

text \<open>
  The function only reads the sets of the array; the set it returns is a new object
  that nothing else refers to, so the model returns its contents.
\<close>

fun practice_loop :: "'c heap \<Rightarrow> ref list \<Rightarrow> nat \<Rightarrow> nat \<Rightarrow> 'c fset \<Rightarrow> 'c fset" where
  "practice_loop h [] bucketIndex day reviewSet = reviewSet"
| "practice_loop h (cards # rest) bucketIndex day reviewSet =
     practice_loop h rest (Suc bucketIndex) day
       (if day mod (2 ^ bucketIndex) = 0 then reviewSet |\<union>| cells h cards else reviewSet)"

definition practice :: "'c heap \<Rightarrow> ref list \<Rightarrow> nat \<Rightarrow> 'c fset" where
  "practice h buckets day = practice_loop h buckets 0 day {||}"

section \<open>update\<close>

text \<open>
  The \<^verbatim>\<open>for\<close> loop over the entries: the first set, in insertion order, that has the
  card loses it, and its bucket number is the current bucket.
\<close>

fun find_and_delete :: "'c heap \<Rightarrow> BucketMap \<Rightarrow> 'c \<Rightarrow> 'c heap \<times> nat option" where
  "find_and_delete h [] card' = (h, None)"
| "find_and_delete h ((bucketIndex, cards) # rest) card' =
     (if Set_has h cards card' then (Set_delete h cards card', Some bucketIndex)
      else find_and_delete h rest card')"

text \<open>
  \<^verbatim>\<open>new Map(buckets)\<close> copies the entries, not the sets: \<open>updatedBuckets\<close> starts as the
  same entry list, with the same references. The non-null assertion on
  \<^verbatim>\<open>updatedBuckets.get(newBucket)\<close> is unchecked; on \<^verbatim>\<open>undefined\<close> the call of
  \<^verbatim>\<open>add\<close> would throw a \<^verbatim>\<open>TypeError\<close>.
\<close>

definition update :: "'c heap \<Rightarrow> BucketMap \<Rightarrow> 'c \<Rightarrow> AnswerDifficulty
    \<Rightarrow> js_error + ('c heap \<times> BucketMap)" where
  "update h buckets card' difficulty =
     (let updatedBuckets = buckets;
          (h1, found) = find_and_delete h updatedBuckets card';
          currentBucket = (case found of None \<Rightarrow> 0 | Some b \<Rightarrow> b);
          newBucket = (if difficulty = Wrong then 0
                       else if difficulty = Hard then min (currentBucket + 1) 4
                       else min (currentBucket + 2) 4);
          (h2, updatedBuckets2) =
            (if \<not> Map_has updatedBuckets newBucket
             then (let (h', s) = new_Set h1 in (h', Map_set updatedBuckets newBucket s))
             else (h1, updatedBuckets))
      in case Map_get updatedBuckets2 newBucket of
           None \<Rightarrow> Inl TypeError
         | Some s \<Rightarrow> Inr (Set_add h2 s card', updatedBuckets2))"

section \<open>getHint\<close>

text \<open>
  The code units that \<^verbatim>\<open>String.prototype.trim\<close> removes: the white space and line
  terminators of ECMAScript.
\<close>

definition is_ws :: "16 word \<Rightarrow> bool" where
  "is_ws c = (c \<in> set [0x9, 0xA, 0xB, 0xC, 0xD, 0x20, 0xA0, 0x1680,
       0x2000, 0x2001, 0x2002, 0x2003, 0x2004, 0x2005, 0x2006, 0x2007, 0x2008, 0x2009, 0x200A,
       0x2028, 0x2029, 0x202F, 0x205F, 0x3000, 0xFEFF])"

definition trim :: "jsstring \<Rightarrow> jsstring" where
  "trim s = rev (dropWhile is_ws (rev (dropWhile is_ws s)))"

definition getHint :: "Flashcard \<Rightarrow> jsstring" where
  "getHint card' =
     (if length (trim (hint card')) > 0 then hint card'
      else if length (trim (front card')) = 0 then js_lit ''No hint available''
      else if length (front card') \<le> 2 then front card'
      else (let firstLetter = front card' ! 0;
                lastLetter = front card' ! (length (front card') - 1);
                maskedMiddle = replicate (length (front card') - 2) (of_char CHR ''*'')
            in [firstLetter] @ maskedMiddle @ [lastLetter]))"

section \<open>computeProgress\<close>

text \<open>
  The two quotients are computed in floating point. The model does not fix the
  arithmetic of \<^verbatim>\<open>number\<close>: \<open>fnum\<close> reads an integer as a number, \<open>fdiv\<close> and \<open>fmul\<close>
  are the operators \<^verbatim>\<open>/\<close> and \<^verbatim>\<open>*\<close>, all three parameters.
\<close>

record 'r float_ops =
  fnum :: "nat \<Rightarrow> 'r"
  fdiv :: "'r \<Rightarrow> 'r \<Rightarrow> 'r"
  fmul :: "'r \<Rightarrow> 'r \<Rightarrow> 'r"

record 'c HistoryEntry =
  day :: nat
  entry_card :: 'c
  difficulty :: AnswerDifficulty

record 'r ProgressResult =
  totalCards :: nat
  bucketDistribution :: "nat \<rightharpoonup> nat"
  averageBucket :: 'r
  practiceHistory :: "nat \<rightharpoonup> nat"
  accuracyRate :: 'r

text \<open>The first \<^verbatim>\<open>forEach\<close>: the accumulators are
  \<^verbatim>\<open>totalCards\<close>, \<^verbatim>\<open>bucketDistribution\<close> and \<^verbatim>\<open>totalBucketSum\<close>.\<close>

fun buckets_loop :: "'c heap \<Rightarrow> BucketMap \<Rightarrow> nat \<times> (nat \<rightharpoonup> nat) \<times> nat
    \<Rightarrow> nat \<times> (nat \<rightharpoonup> nat) \<times> nat" where
  "buckets_loop h [] vars = vars"
| "buckets_loop h ((bucketNumber, cards) # rest)
       (totalCards', bucketDistribution', totalBucketSum) =
     (let count = Set_size h cards
      in buckets_loop h rest
           (totalCards' + count,
            bucketDistribution'(bucketNumber \<mapsto> count),
            totalBucketSum + bucketNumber * count))"

text \<open>The second \<^verbatim>\<open>forEach\<close>: the accumulators are
  \<^verbatim>\<open>practiceHistory\<close>, \<^verbatim>\<open>totalAttempts\<close> and \<^verbatim>\<open>correctAttempts\<close>.
  In \<^verbatim>\<open>practiceHistory[day] || 0\<close> a missing entry and the entry 0 both give 0.\<close>

fun history_loop :: "'c HistoryEntry list \<Rightarrow> (nat \<rightharpoonup> nat) \<times> nat \<times> nat
    \<Rightarrow> (nat \<rightharpoonup> nat) \<times> nat \<times> nat" where
  "history_loop [] vars = vars"
| "history_loop (e # rest) (practiceHistory', totalAttempts, correctAttempts) =
     history_loop rest
       (practiceHistory'(day e \<mapsto>
          (case practiceHistory' (day e) of None \<Rightarrow> 0 | Some v \<Rightarrow> if v = 0 then 0 else v) + 1),
        totalAttempts + 1,
        (if difficulty e = Hard \<or> difficulty e = Easy then correctAttempts + 1
         else correctAttempts))"

definition computeProgress :: "'r float_ops \<Rightarrow> 'c heap \<Rightarrow> BucketMap \<Rightarrow> 'c HistoryEntry list
    \<Rightarrow> 'r ProgressResult" where
  "computeProgress ops h buckets history =
     (let (totalCards', bucketDistribution', totalBucketSum) =
            buckets_loop h buckets (0, Map.empty, 0);
          averageBucket' =
            (if totalCards' > 0 then fdiv ops (fnum ops totalBucketSum) (fnum ops totalCards')
             else fnum ops 0);
          (practiceHistory', totalAttempts, correctAttempts) =
            history_loop history (Map.empty, 0, 0);
          accuracyRate' =
            (if totalAttempts > 0
             then fmul ops (fdiv ops (fnum ops correctAttempts) (fnum ops totalAttempts))
                    (fnum ops 100)
             else fnum ops 0)
      in \<lparr>totalCards = totalCards', bucketDistribution = bucketDistribution',
          averageBucket = averageBucket', practiceHistory = practiceHistory',
          accuracyRate = accuracyRate'\<rparr>)"

section \<open>Vocabulary of the properties\<close>

text \<open>
  A bucket map is well formed in a store when its keys are pairwise different (as the
  keys of a \<^verbatim>\<open>Map\<close> are), its sets are pairwise different objects, and every set
  has been allocated.
\<close>

definition wf_buckets :: "'c heap \<Rightarrow> BucketMap \<Rightarrow> bool" where
  "wf_buckets h m =
     (distinct (map fst m) \<and> distinct (map snd m) \<and> (\<forall>s \<in> set (map snd m). s < nxt h))"

text \<open>The bucket numbers, in insertion order, whose set holds the card.\<close>

definition buckets_of :: "'c heap \<Rightarrow> BucketMap \<Rightarrow> 'c \<Rightarrow> nat list" where
  "buckets_of h m c = map fst (filter (\<lambda>(k, s). c |\<in>| cells h s) m)"

text \<open>The number of cards summed across all buckets.\<close>

definition total_cards :: "'c heap \<Rightarrow> BucketMap \<Rightarrow> nat" where
  "total_cards h m = sum_list (map (\<lambda>(k, s). fcard (cells h s)) m)"

text \<open>
  The value that \<^verbatim>\<open>update\<close> gives its variable \<^verbatim>\<open>newBucket\<close>, as a function of the
  buckets that hold the card before the call and of the difficulty.
\<close>

definition newBucket_of :: "nat list \<Rightarrow> AnswerDifficulty \<Rightarrow> nat" where
  "newBucket_of ks d =
     (let currentBucket = (case ks of [] \<Rightarrow> 0 | k # _ \<Rightarrow> k)
      in if d = Wrong then 0 else if d = Hard then min (currentBucket + 1) 4
         else min (currentBucket + 2) 4)"

text \<open>
  In a dense bucket array each card appears in at most one bucket: the sets at two
  different indices have no card in common.
\<close>

definition one_bucket_per_card :: "'c heap \<Rightarrow> ref list \<Rightarrow> bool" where
  "one_bucket_per_card h arr =
     (\<forall>i < length arr. \<forall>j < length arr. i \<noteq> j \<longrightarrow> cells h (arr ! i) |\<inter>| cells h (arr ! j) = {||})"

text \<open>
  The invariant of the loop of \<^verbatim>\<open>getBucketRange\<close> after the prefix \<open>arr\<close> of the array:
  both variables are undefined, or both are indices of non-empty sets of the prefix, in
  order.
\<close>

definition range_ok :: "'c heap \<Rightarrow> ref list \<Rightarrow> nat option \<times> nat option \<Rightarrow> bool" where
  "range_ok h arr acc =
     (case acc of
        (None, None) \<Rightarrow> True
      | (Some mn, Some mx) \<Rightarrow> mn \<le> mx \<and> mx < length arr \<and>
            cells h (arr ! mn) \<noteq> {||} \<and> cells h (arr ! mx) \<noteq> {||}
      | _ \<Rightarrow> False)"

subsection \<open>Stores of the examples\<close>

text \<open>
  Cards are named by strings. \<open>empty_heap\<close> has no set. \<open>heap_A\<close> has one set, at
  address 0, with card A; it is the store of the bucket map \<open>{0: {A}}\<close>, written
  \<open>[(0, 0)]\<close>, and also the store that \<^verbatim>\<open>update\<close> leaves when card A enters the empty
  map. \<open>heap_A_moved\<close> has the set at address 0 empty and card A in a second set.
\<close>

definition empty_heap :: "string heap" where
  "empty_heap = \<lparr>cells = (\<lambda>_. {||}), nxt = 0\<rparr>"

definition heap_A :: "string heap" where
  "heap_A = \<lparr>cells = (\<lambda>_. {||})(0 := {|''A''|}), nxt = 1\<rparr>"

definition heap_A_moved :: "string heap" where
  "heap_A_moved = \<lparr>cells = (\<lambda>_. {||})(0 := {||}, 1 := {|''A''|}), nxt = 2\<rparr>"

text \<open>The store of the bucket map \<open>{0: {B}, 3: {A}}\<close>, written \<open>[(0, 0), (3, 1)]\<close>.\<close>

definition heap_B0_A3 :: "string heap" where
  "heap_B0_A3 = \<lparr>cells = (\<lambda>_. {||})(0 := {|''B''|}, 1 := {|''A''|}), nxt = 2\<rparr>"

text \<open>The store of the dense array \<open>[{A}, {B}, {C}]\<close>, written \<open>[0, 1, 2]\<close>.\<close>

definition heap_ABC :: "string heap" where
  "heap_ABC = \<lparr>cells = (\<lambda>_. {||})(0 := {|''A''|}, 1 := {|''B''|}, 2 := {|''C''|}), nxt = 3\<rparr>"

text \<open>The store of the dense array \<open>[{}, {A}, {}, {B}, {}]\<close>, written \<open>[0, 1, 2, 3, 4]\<close>.\<close>

definition heap_range :: "string heap" where
  "heap_range = \<lparr>cells = (\<lambda>_. {||})(1 := {|''A''|}, 3 := {|''B''|}), nxt = 5\<rparr>"

text \<open>The store of the bucket map \<open>{0: {A, B}, 2: {C}}\<close>, written \<open>[(0, 0), (2, 1)]\<close>.\<close>

definition heap_AB_C :: "string heap" where
  "heap_AB_C = \<lparr>cells = (\<lambda>_. {||})(0 := {|''A'', ''B''|}, 1 := {|''C''|}), nxt = 2\<rparr>"

text \<open>A card with the given front and hint.\<close>

definition mk_card :: "string \<Rightarrow> string \<Rightarrow> Flashcard" where
  "mk_card f h = \<lparr>front = js_lit f, back' = [], hint = js_lit h, tags = []\<rparr>"

text \<open>
  Exact rational arithmetic in place of floating point, and a history of three answers;
  \<open>stats_example\<close> is the result of \<^verbatim>\<open>computeProgress\<close> on the example map and this
  history.
\<close>

definition exact_ops :: "rat float_ops" where
  "exact_ops = \<lparr>fnum = of_nat, fdiv = (/), fmul = (*)\<rparr>"

definition history_3 :: "string HistoryEntry list" where
  "history_3 = [\<lparr>day = 1, entry_card = ''A'', difficulty = Easy\<rparr>,
                \<lparr>day = 2, entry_card = ''A'', difficulty = Wrong\<rparr>,
                \<lparr>day = 1, entry_card = ''C'', difficulty = Hard\<rparr>]"

definition stats_example :: "rat ProgressResult" where
  "stats_example = computeProgress exact_ops heap_AB_C [(0, 0), (2, 1)] history_3"

section \<open>Lemmas on maps and stores\<close>

lemma map_of_Map_set: "map_of (Map_set m k v) k' = (if k' = k then Some v else map_of m k')"
  by (induction m) auto

lemma Map_set_absent: "map_of m k = None \<Longrightarrow> Map_set m k v = m @ [(k, v)]"
  by (induction m) (auto split: if_splits)

lemma find_and_delete_absent:
  "\<forall>(k, s) \<in> set b. c |\<notin>| cells h s \<Longrightarrow> find_and_delete h b c = (h, None)"
  by (induction b) (auto simp: Set_has_def)

lemma find_and_delete_present:
  "\<exists>(k, s) \<in> set b. c |\<in>| cells h s \<Longrightarrow>
   \<exists>k s. find_and_delete h b c = (Set_delete h s c, Some k) \<and> (k, s) \<in> set b \<and> c |\<in>| cells h s"
proof (induction b)
  case Nil
  then show ?case by simp
next
  case (Cons e b)
  obtain k s where e: "e = (k, s)" by (cases e)
  show ?case
  proof (cases "c |\<in>| cells h s")
    case True
    then have "find_and_delete h (e # b) c = (Set_delete h s c, Some k)"
      by (simp add: e Set_has_def)
    with True show ?thesis unfolding e by (intro exI[of _ k] exI[of _ s]) simp
  next
    case False
    with Cons.prems have "\<exists>(k, s) \<in> set b. c |\<in>| cells h s" by (auto simp: e)
    from Cons.IH[OF this] obtain k' s' where
      "find_and_delete h b c = (Set_delete h s' c, Some k')" "(k', s') \<in> set b" "c |\<in>| cells h s'"
      by blast
    with False show ?thesis unfolding e
      by (intro exI[of _ k'] exI[of _ s']) (simp add: Set_has_def)
  qed
qed

lemma find_and_delete_found:
  "snd (find_and_delete h m c) = (case buckets_of h m c of [] \<Rightarrow> None | k # _ \<Rightarrow> Some k)"
  by (induction m) (auto simp: buckets_of_def Set_has_def)

lemma find_and_delete_nxt: "nxt (fst (find_and_delete h m c)) = nxt h"
  by (induction m) (auto simp: Set_has_def Set_delete_def)

lemma buckets_of_Nil_iff: "buckets_of h m c = [] \<longleftrightarrow> (\<forall>(k, s) \<in> set m. c |\<notin>| cells h s)"
  by (auto simp: buckets_of_def filter_empty_conv)

lemma buckets_of_mem: "k \<in> set (buckets_of h m c) \<longleftrightarrow> (\<exists>s. (k, s) \<in> set m \<and> c |\<in>| cells h s)"
  by (force simp: buckets_of_def)

lemma filter_single:
  "distinct (map snd m) \<Longrightarrow> (k, s) \<in> set m \<Longrightarrow> filter (\<lambda>(k', s'). s' = s) m = [(k, s)]"
proof (induction m)
  case Nil
  then show ?case by simp
next
  case (Cons e m)
  obtain k' s' where e: "e = (k', s')" by (cases e)
  show ?case
  proof (cases "s' = s")
    case True
    with Cons.prems have "s \<notin> snd ` set m" by (simp add: e)
    then have "filter (\<lambda>(k', s'). s' = s) m = []"
      by (force simp: filter_empty_conv)
    moreover from True Cons.prems \<open>s \<notin> snd ` set m\<close> have "k' = k" by (force simp: e)
    ultimately show ?thesis using True by (simp add: e)
  next
    case False
    with Cons show ?thesis by (auto simp: e)
  qed
qed

lemma total_cards_cong:
  "\<forall>s \<in> snd ` set m. cells h' s = cells h s \<Longrightarrow> total_cards h' m = total_cards h m"
  by (induction m) (auto simp: total_cards_def)

lemma buckets_of_cong:
  "\<forall>s \<in> snd ` set m. cells h' s = cells h s \<Longrightarrow> buckets_of h' m c = buckets_of h m c"
  by (induction m) (auto simp: buckets_of_def)

lemma total_cards_modify:
  "distinct (map snd m) \<Longrightarrow> (k, s) \<in> set m \<Longrightarrow>
   total_cards (h\<lparr>cells := (cells h)(s := X)\<rparr>) m + fcard (cells h s) = total_cards h m + fcard X"
proof (induction m)
  case Nil
  then show ?case by simp
next
  case (Cons e m)
  obtain k' s' where e: "e = (k', s')" by (cases e)
  show ?case
  proof (cases "s' = s")
    case True
    with Cons.prems have "s \<notin> snd ` set m" by (simp add: e)
    then have "total_cards (h\<lparr>cells := (cells h)(s := X)\<rparr>) m = total_cards h m"
      by (intro total_cards_cong) auto
    then show ?thesis using True by (simp add: e total_cards_def)
  next
    case False
    with Cons.prems have "(k, s) \<in> set m" "distinct (map snd m)" by (auto simp: e)
    from Cons.IH[OF this(2,1)] False show ?thesis by (simp add: e total_cards_def)
  qed
qed

lemma at_most_one_eq: "length xs \<le> 1 \<Longrightarrow> x \<in> set xs \<Longrightarrow> y \<in> set xs \<Longrightarrow> x = y"
  by (cases xs) auto

lemma find_and_delete_clears:
  assumes "length (buckets_of h m c) \<le> 1"
  shows "\<forall>(k, s) \<in> set m. c |\<notin>| cells (fst (find_and_delete h m c)) s"
proof (cases "buckets_of h m c = []")
  case True
  then have "\<forall>(k, s) \<in> set m. c |\<notin>| cells h s" by (simp add: buckets_of_Nil_iff)
  then show ?thesis by (simp add: find_and_delete_absent)
next
  case False
  then have "\<exists>(k, s) \<in> set m. c |\<in>| cells h s" by (auto simp: buckets_of_Nil_iff)
  from find_and_delete_present[OF this] obtain k s where
    fad: "find_and_delete h m c = (Set_delete h s c, Some k)" and ks: "(k, s) \<in> set m" "c |\<in>| cells h s"
    by blast
  let ?xs = "filter (\<lambda>(k, s). c |\<in>| cells h s) m"
  have len: "length ?xs \<le> 1" using assms by (simp add: buckets_of_def)
  have "c |\<notin>| cells (Set_delete h s c) s'" if "(k', s') \<in> set m" for k' s'
  proof (cases "s' = s")
    case True
    then show ?thesis by (simp add: Set_delete_def)
  next
    case False
    have "c |\<notin>| cells h s'"
    proof
      assume "c |\<in>| cells h s'"
      with that have "(k', s') \<in> set ?xs" by simp
      moreover from ks have "(k, s) \<in> set ?xs" by simp
      ultimately have "(k', s') = (k, s)" using len by (rule at_most_one_eq[rotated])
      with False show False by simp
    qed
    with False show ?thesis by (simp add: Set_delete_def)
  qed
  then show ?thesis by (auto simp: fad)
qed

lemma find_and_delete_total:
  assumes "distinct (map snd m)"
  shows "total_cards (fst (find_and_delete h m c)) m + (if buckets_of h m c = [] then 0 else 1)
         = total_cards h m"
proof (cases "buckets_of h m c = []")
  case True
  then have "\<forall>(k, s) \<in> set m. c |\<notin>| cells h s" by (simp add: buckets_of_Nil_iff)
  then show ?thesis using True by (simp add: find_and_delete_absent)
next
  case False
  then have "\<exists>(k, s) \<in> set m. c |\<in>| cells h s" by (auto simp: buckets_of_Nil_iff)
  from find_and_delete_present[OF this] obtain k s where
    fad: "find_and_delete h m c = (Set_delete h s c, Some k)" and ks: "(k, s) \<in> set m" "c |\<in>| cells h s"
    by blast
  from total_cards_modify[OF assms ks(1), of h "cells h s |-| {|c|}"]
  have "total_cards (Set_delete h s c) m + fcard (cells h s) = total_cards h m + fcard (cells h s |-| {|c|})"
    by (simp add: Set_delete_def)
  moreover from ks(2) have "Suc (fcard (cells h s |-| {|c|})) = fcard (cells h s)"
    by (rule fcard_Suc_fminus1)
  ultimately show ?thesis using False by (simp add: fad)
qed

lemma place_existing:
  assumes "distinct (map snd m)" and "\<forall>(k, s) \<in> set m. c |\<notin>| cells h1 s" and "map_of m t = Some s"
  shows "buckets_of (Set_add h1 s c) m c = [t]"
    and "total_cards (Set_add h1 s c) m = total_cards h1 m + 1"
proof -
  from assms(3) have ts: "(t, s) \<in> set m" by (rule map_of_SomeD)
  have "filter (\<lambda>(k, s'). c |\<in>| cells (Set_add h1 s c) s') m = filter (\<lambda>(k', s'). s' = s) m"
    using assms(2) by (intro filter_cong) (auto simp: Set_add_def)
  also have "\<dots> = [(t, s)]" using assms(1) ts by (rule filter_single)
  finally show "buckets_of (Set_add h1 s c) m c = [t]" by (simp add: buckets_of_def)
  from ts assms(2) have "c |\<notin>| cells h1 s" by auto
  then have "fcard (finsert c (cells h1 s)) = Suc (fcard (cells h1 s))" by (rule fcard_finsert_disjoint)
  with total_cards_modify[OF assms(1) ts, of h1 "finsert c (cells h1 s)"]
  show "total_cards (Set_add h1 s c) m = total_cards h1 m + 1"
    by (simp add: Set_add_def)
qed

lemma place_fresh:
  assumes "\<forall>s \<in> set (map snd m). s < nxt h1" and "\<forall>(k, s) \<in> set m. c |\<notin>| cells h1 s"
  shows "buckets_of (Set_add (fst (new_Set h1)) (nxt h1) c) (m @ [(t, nxt h1)]) c = [t]"
    and "total_cards (Set_add (fst (new_Set h1)) (nxt h1) c) (m @ [(t, nxt h1)]) = total_cards h1 m + 1"
proof -
  let ?h = "Set_add (fst (new_Set h1)) (nxt h1) c"
  have same: "\<forall>s \<in> snd ` set m. cells ?h s = cells h1 s"
    using assms(1) by (auto simp: Set_add_def new_Set_def)
  have new: "cells ?h (nxt h1) = {|c|}" by (simp add: Set_add_def new_Set_def)
  have "buckets_of ?h m c = buckets_of h1 m c" using same by (rule buckets_of_cong)
  also have "\<dots> = []" using assms(2) by (simp add: buckets_of_Nil_iff)
  finally show "buckets_of ?h (m @ [(t, nxt h1)]) c = [t]"
    using new by (simp add: buckets_of_def)
  have "total_cards ?h m = total_cards h1 m" using same by (rule total_cards_cong)
  then show "total_cards ?h (m @ [(t, nxt h1)]) = total_cards h1 m + 1"
    using new by (simp add: total_cards_def fcard_finsert_if)
qed


lemma update_eq:
  "update h m c d =
     (let h1 = fst (find_and_delete h m c); t = newBucket_of (buckets_of h m c) d
      in case map_of m t of
           Some s \<Rightarrow> Inr (Set_add h1 s c, m)
         | None \<Rightarrow> Inr (Set_add (fst (new_Set h1)) (nxt h1) c, m @ [(t, nxt h1)]))"
proof -
  define h1 where "h1 = fst (find_and_delete h m c)"
  define found where "found = snd (find_and_delete h m c)"
  have fad: "find_and_delete h m c = (h1, found)" by (simp add: h1_def found_def)
  have found: "found = (case buckets_of h m c of [] \<Rightarrow> None | k # _ \<Rightarrow> Some k)"
    by (simp add: found_def find_and_delete_found)
  define t where "t = newBucket_of (buckets_of h m c) d"
  have t: "(if d = Wrong then 0
            else if d = Hard then min ((case found of None \<Rightarrow> 0 | Some b \<Rightarrow> b) + 1) 4
            else min ((case found of None \<Rightarrow> 0 | Some b \<Rightarrow> b) + 2) 4) = t"
    by (simp add: t_def newBucket_of_def found split: list.splits)
  have "update h m c d =
     (case map_of m t of
        Some s \<Rightarrow> Inr (Set_add h1 s c, m)
      | None \<Rightarrow> Inr (Set_add (fst (new_Set h1)) (nxt h1) c, m @ [(t, nxt h1)]))"
  proof (cases "map_of m t")
    case None
    have get: "map_of (Map_set m t (nxt h1)) t = Some (nxt h1)" by (simp add: map_of_Map_set)
    have app: "Map_set m t (nxt h1) = m @ [(t, nxt h1)]" using None by (rule Map_set_absent)
    have "update h m c d = Inr (Set_add (fst (new_Set h1)) (nxt h1) c, Map_set m t (nxt h1))"
      unfolding update_def Let_def fad prod.case t
      by (simp add: Map_has_def Map_get_def new_Set_def None get)
    then show ?thesis by (simp add: None app)
  next
    case (Some s)
    have "update h m c d = Inr (Set_add h1 s c, m)"
      unfolding update_def Let_def fad prod.case t
      by (simp add: Map_has_def Map_get_def Some)
    then show ?thesis by (simp add: Some)
  qed
  then show ?thesis unfolding t_def h1_def Let_def .
qed

lemma update_places:
  "\<exists>h' m'. update h m c d = Inr (h', m') \<and> newBucket_of (buckets_of h m c) d \<in> set (buckets_of h' m' c)"
proof (cases "map_of m (newBucket_of (buckets_of h m c) d)")
  case None
  let ?h1 = "fst (find_and_delete h m c)"
  let ?t = "newBucket_of (buckets_of h m c) d"
  have "?t \<in> set (buckets_of (Set_add (fst (new_Set ?h1)) (nxt ?h1) c) (m @ [(?t, nxt ?h1)]) c)"
    unfolding buckets_of_mem by (intro exI[of _ "nxt ?h1"]) (simp add: Set_add_def new_Set_def)
  with None show ?thesis by (simp add: update_eq Let_def)
next
  case (Some s)
  then have "(newBucket_of (buckets_of h m c) d, s) \<in> set m" by (rule map_of_SomeD)
  then have "newBucket_of (buckets_of h m c) d \<in> set (buckets_of (Set_add (fst (find_and_delete h m c)) s c) m c)"
    unfolding buckets_of_mem by (intro exI[of _ s]) (simp add: Set_add_def)
  with Some show ?thesis by (simp add: update_eq Let_def)
qed

lemma update_wf:
  assumes "wf_buckets h m" and "length (buckets_of h m c) \<le> 1"
  shows "\<exists>h' m'. update h m c d = Inr (h', m') \<and>
           buckets_of h' m' c = [newBucket_of (buckets_of h m c) d] \<and>
           total_cards h' m' + (if buckets_of h m c = [] then 0 else 1) = total_cards h m + 1"
proof -
  let ?h1 = "fst (find_and_delete h m c)"
  let ?t = "newBucket_of (buckets_of h m c) d"
  from assms(1) have dist: "distinct (map snd m)" and alloc: "\<forall>s \<in> set (map snd m). s < nxt ?h1"
    by (simp_all add: wf_buckets_def find_and_delete_nxt)
  have clear: "\<forall>(k, s) \<in> set m. c |\<notin>| cells ?h1 s"
    using assms(2) by (rule find_and_delete_clears)
  have tot: "total_cards ?h1 m + (if buckets_of h m c = [] then 0 else 1) = total_cards h m"
    using dist by (rule find_and_delete_total)
  show ?thesis
  proof (cases "map_of m ?t")
    case None
    with place_fresh[OF alloc clear, of ?t] tot show ?thesis
      by (simp add: update_eq Let_def)
  next
    case (Some s)
    with place_existing[OF dist clear Some] tot show ?thesis
      by (simp add: update_eq Let_def)
  qed
qed

section \<open>Properties of update\<close>

text \<open>
  Claim C1. For every bucket map, card and difficulty, \<^verbatim>\<open>update\<close> returns a map in which
  the card is in the target bucket: bucket 0 when the difficulty is Wrong,
  \<open>min (currentBucket + 1) 4\<close> when Hard and \<open>min (currentBucket + 2) 4\<close> when Easy, where
  \<open>currentBucket\<close> is the bucket that held the card in the input map (the first one in
  insertion order, should there be several) and 0 if no bucket held it. The target is at
  most 4. When the input map is well formed and holds the card in at most one bucket, the
  target is the only bucket of the result that holds the card.
\<close>

theorem update_target_bucket:
  "\<exists>h' m'. update h m c d = Inr (h', m') \<and>
     (let currentBucket = (case buckets_of h m c of [] \<Rightarrow> 0 | k # _ \<Rightarrow> k);
          placed = (\<lambda>t. t \<in> set (buckets_of h' m' c) \<and> t \<le> 4 \<and>
            (wf_buckets h m \<and> length (buckets_of h m c) \<le> 1 \<longrightarrow> buckets_of h' m' c = [t]))
      in (d = Wrong \<longrightarrow> placed 0) \<and>
         (d = Hard \<longrightarrow> placed (min (currentBucket + 1) 4)) \<and>
         (d = Easy \<longrightarrow> placed (min (currentBucket + 2) 4)))"
proof -
  obtain h' m' where upd: "update h m c d = Inr (h', m')"
    and mem: "newBucket_of (buckets_of h m c) d \<in> set (buckets_of h' m' c)"
    using update_places[of h m c d] by blast
  have only: "buckets_of h' m' c = [newBucket_of (buckets_of h m c) d]"
    if "wf_buckets h m \<and> length (buckets_of h m c) \<le> 1"
    using update_wf[of h m c d] that upd by auto
  have le: "newBucket_of (buckets_of h m c) d \<le> 4"
    by (simp add: newBucket_of_def Let_def)
  show ?thesis
  proof (intro exI[of _ h'] exI[of _ m'] conjI, rule upd)
    show "let currentBucket = (case buckets_of h m c of [] \<Rightarrow> 0 | k # _ \<Rightarrow> k);
          placed = (\<lambda>t. t \<in> set (buckets_of h' m' c) \<and> t \<le> 4 \<and>
            (wf_buckets h m \<and> length (buckets_of h m c) \<le> 1 \<longrightarrow> buckets_of h' m' c = [t]))
      in (d = Wrong \<longrightarrow> placed 0) \<and>
         (d = Hard \<longrightarrow> placed (min (currentBucket + 1) 4)) \<and>
         (d = Easy \<longrightarrow> placed (min (currentBucket + 2) 4))"
      using mem only le unfolding newBucket_of_def Let_def by auto
  qed
qed

theorem update_target_bucket_witness:
  "(\<exists>h' m'. update heap_B0_A3 [(0, 0), (3, 1)] ''A'' Wrong = Inr (h', m') \<and> buckets_of h' m' ''A'' = [0]) \<and>
   (\<exists>h' m'. update heap_B0_A3 [(0, 0), (3, 1)] ''A'' Hard = Inr (h', m') \<and> buckets_of h' m' ''A'' = [4]) \<and>
   (\<exists>h' m'. update heap_B0_A3 [(0, 0), (3, 1)] ''A'' Easy = Inr (h', m') \<and> buckets_of h' m' ''A'' = [4])"
proof -
  have wf: "wf_buckets heap_B0_A3 [(0, 0), (3, 1)]" by (simp add: wf_buckets_def heap_B0_A3_def)
  have one: "buckets_of heap_B0_A3 [(0, 0), (3, 1)] ''A'' = [3]" by (simp add: buckets_of_def heap_B0_A3_def)
  show ?thesis
    using wf one update_target_bucket[of heap_B0_A3 "[(0, 0), (3, 1)]" "''A''" Wrong]
      update_target_bucket[of heap_B0_A3 "[(0, 0), (3, 1)]" "''A''" Hard]
      update_target_bucket[of heap_B0_A3 "[(0, 0), (3, 1)]" "''A''" Easy]
    by (auto simp: Let_def)
qed

text \<open>
  Claim C4. The claim is that \<^verbatim>\<open>update\<close> leaves every set object of the input map with the
  cards it held before the call. The copy made by \<^verbatim>\<open>new Map(buckets)\<close> shares the set
  objects of the input, and \<^verbatim>\<open>cards.delete(card)\<close> and \<^verbatim>\<open>add(card)\<close> write to them. With
  card A in bucket 0 (the set at address 0) and the answer Hard, the call returns the map
  \<open>{0: set 0, 1: set 1}\<close>, and the set at address 0, which the input map still holds,
  has lost card A.
\<close>

theorem update_keeps_input_sets_bug:
  "update heap_A [(0, 0)] ''A'' Hard = Inr (heap_A_moved, [(0, 0), (1, 1)]) \<and>
   cells heap_A 0 = {|''A''|} \<and> cells heap_A_moved 0 = {||}"
  by (simp add: update_def heap_A_def heap_A_moved_def Set_has_def Set_delete_def Set_add_def
      Map_has_def Map_get_def new_Set_def)

text \<open>
  Claim C5, as stated: the total number of cards of the returned map equals the total of
  the input map, for every map, card and difficulty. It fails for a card that no bucket
  holds: from the empty map, the answer Easy gives a map with one card.
\<close>

theorem update_total_cards_counterexample:
  "update empty_heap [] ''A'' Easy = Inr (heap_A, [(2, 0)]) \<and>
   total_cards heap_A [(2, 0)] = 1 \<and> total_cards empty_heap [] = 0"
  by (simp add: update_def heap_A_def empty_heap_def Set_has_def Set_delete_def Set_add_def
      Map_has_def Map_get_def new_Set_def total_cards_def fcard_finsert_if)

text \<open>
  Claim C5, amended. For a well-formed bucket map: when exactly one bucket holds the card,
  the total number of cards of the returned map equals the total of the input map; when
  no bucket holds the card, the total grows by one; in both cases exactly one bucket of
  the returned map holds the card.
\<close>

theorem update_total_cards:
  assumes "wf_buckets h m"
  shows "\<exists>h' m'. update h m c d = Inr (h', m') \<and>
     (length (buckets_of h m c) = 1 \<longrightarrow> total_cards h' m' = total_cards h m) \<and>
     (buckets_of h m c = [] \<longrightarrow> total_cards h' m' = total_cards h m + 1) \<and>
     (length (buckets_of h m c) \<le> 1 \<longrightarrow> length (buckets_of h' m' c) = 1)"
proof (cases "length (buckets_of h m c) \<le> 1")
  case True
  from update_wf[OF assms True, of d] obtain h' m' where
    "update h m c d = Inr (h', m')" "buckets_of h' m' c = [newBucket_of (buckets_of h m c) d]"
    "total_cards h' m' + (if buckets_of h m c = [] then 0 else 1) = total_cards h m + 1"
    by blast
  then show ?thesis
    by (intro exI[of _ h'] exI[of _ m']) (auto split: if_splits)
next
  case False
  obtain h' m' where "update h m c d = Inr (h', m')"
    using update_places[of h m c d] by blast
  with False show ?thesis by auto
qed

theorem update_total_cards_witness:
  "(\<exists>h' m'. update heap_A [(0, 0)] ''A'' Hard = Inr (h', m') \<and> total_cards h' m' = 1 \<and>
      length (buckets_of h' m' ''A'') = 1) \<and>
   (\<exists>h' m'. update heap_A [(0, 0)] ''B'' Hard = Inr (h', m') \<and> total_cards h' m' = 2)"
proof -
  have wf: "wf_buckets heap_A [(0, 0)]" by (simp add: wf_buckets_def heap_A_def)
  have "buckets_of heap_A [(0, 0)] ''A'' = [0]" "buckets_of heap_A [(0, 0)] ''B'' = []"
    "total_cards heap_A [(0, 0)] = 1"
    by (simp_all add: buckets_of_def total_cards_def heap_A_def fcard_finsert_if)
  then show ?thesis
    using update_total_cards[OF wf, of "''A''" Hard] update_total_cards[OF wf, of "''B''" Hard]
    by auto
qed

text \<open>
  Claim C9, as stated: for a difficulty that is not Wrong, Hard or Easy, \<^verbatim>\<open>update\<close> fails
  with an error. It does not: with such a value the call on the empty map returns a map
  with the card in bucket 2.
\<close>

theorem update_unrecognized_counterexample:
  "update empty_heap [] ''A'' (Unrecognized 7) = Inr (heap_A, [(2, 0)])"
  by (simp add: update_def heap_A_def empty_heap_def Set_has_def Set_delete_def Set_add_def
      Map_has_def Map_get_def new_Set_def)

text \<open>
  Claim C9, amended. For a difficulty that is not Wrong, Hard or Easy, \<^verbatim>\<open>update\<close> does not
  fail: it returns what it returns for Easy.
\<close>

theorem update_unrecognized_as_Easy:
  "update h m c (Unrecognized n) = update h m c Easy \<and>
   (\<exists>h' m'. update h m c (Unrecognized n) = Inr (h', m'))"
proof
  show "update h m c (Unrecognized n) = update h m c Easy"
    by (simp add: update_def)
  show "\<exists>h' m'. update h m c (Unrecognized n) = Inr (h', m')"
    using update_places[of h m c "Unrecognized n"] by blast
qed

section \<open>Properties of toBucketSets\<close>

lemma Math_max_Max: "ks \<noteq> [] \<Longrightarrow> Math_max ks = Some (Max (set ks))"
proof (induction ks)
  case Nil
  then show ?case by simp
next
  case (Cons k ks)
  show ?case
  proof (cases "ks = []")
    case True
    then show ?thesis by simp
  next
    case False
    with Cons.IH have "Math_max ks = Some (Max (set ks))" by simp
    with False show ?thesis by simp
  qed
qed

lemma fresh_sets_props:
  "fresh_sets n h = (h', rs) \<Longrightarrow>
     rs = [nxt h ..< nxt h + n] \<and> nxt h' = nxt h + n \<and>
     (\<forall>r. cells h' r = (if nxt h \<le> r \<and> r < nxt h + n then {||} else cells h r))"
proof (induction n arbitrary: h h' rs)
  case 0
  then show ?case by auto
next
  case (Suc n)
  let ?h1 = "fst (new_Set h)"
  obtain h2 ss where rec: "fresh_sets n ?h1 = (h2, ss)" by (cases "fresh_sets n ?h1")
  with Suc.prems have res: "h' = h2" "rs = nxt h # ss"
    by (simp_all add: new_Set_def split: prod.splits)
  have h1: "nxt ?h1 = Suc (nxt h)" "cells ?h1 = (cells h)(nxt h := {||})"
    by (simp_all add: new_Set_def)
  from Suc.IH[OF rec] have ss: "ss = [Suc (nxt h) ..< Suc (nxt h) + n]"
    and nx: "nxt h2 = Suc (nxt h) + n"
    and cs: "\<forall>r. cells h2 r = (if Suc (nxt h) \<le> r \<and> r < Suc (nxt h) + n then {||} else cells ?h1 r)"
    by (simp_all add: h1)
  have "rs = [nxt h ..< nxt h + Suc n]" using res ss by (simp add: upt_rec[of "nxt h"])
  moreover have "nxt h' = nxt h + Suc n" using res nx by simp
  moreover have "\<forall>r. cells h' r = (if nxt h \<le> r \<and> r < nxt h + Suc n then {||} else cells h r)"
    using cs res by (auto simp: h1)
  ultimately show ?case by blast
qed

lemma fold_assign:
  "distinct (map fst b) \<Longrightarrow> \<forall>k \<in> set (map fst b). k < length res \<Longrightarrow>
   length (fold (\<lambda>(bucketNumber, flashcards) res. res[bucketNumber := flashcards]) b res) = length res \<and>
   (\<forall>k < length res.
      fold (\<lambda>(bucketNumber, flashcards) res. res[bucketNumber := flashcards]) b res ! k =
        (case map_of b k of Some s \<Rightarrow> s | None \<Rightarrow> res ! k))"
proof (induction b arbitrary: res)
  case Nil
  then show ?case by simp
next
  case (Cons e b)
  obtain k0 s0 where e: "e = (k0, s0)" by (cases e)
  from Cons.prems have d: "distinct (map fst b)" and k0: "k0 < length res" "map_of b k0 = None"
    and r: "\<forall>k \<in> set (map fst b). k < length (res[k0 := s0])"
    by (auto simp: e map_of_eq_None_iff)
  from Cons.IH[OF d r] k0 show ?case
    by (auto simp: e nth_list_update split: option.splits)
qed

text \<open>
  Claim C3. For a non-empty bucket map (with its sets allocated), \<^verbatim>\<open>toBucketSets\<close> returns
  an array whose length is the largest key plus one; the set at index \<open>k\<close> has the cards of
  the input's set for key \<open>k\<close> when the key is present (it is that very set object, with
  its cards unchanged) and is empty otherwise. So every card of the input is in the output
  at the index of its bucket and nowhere else: when each card is in at most one bucket of
  the map, each card is in at most one set of the array.
\<close>

theorem toBucketSets_dense:
  assumes "buckets \<noteq> []" and "distinct (map fst buckets)"
    and "\<forall>s \<in> set (map snd buckets). s < nxt h"
  shows "\<exists>h' arr. toBucketSets h buckets = Inr (h', arr) \<and>
     length arr = Max (set (map fst buckets)) + 1 \<and>
     (\<forall>k < length arr.
        cells h' (arr ! k) = (case map_of buckets k of Some s \<Rightarrow> cells h s | None \<Rightarrow> {||})) \<and>
     (\<forall>(k, s) \<in> set buckets. k < length arr \<and> arr ! k = s \<and> cells h' s = cells h s) \<and>
     ((\<forall>c. length (buckets_of h buckets c) \<le> 1) \<longrightarrow> one_bucket_per_card h' arr)"
proof -
  let ?f = "\<lambda>(bucketNumber, flashcards) res. res[bucketNumber := flashcards]"
  let ?M = "Max (set (map fst buckets))"
  have mx: "Math_max (map fst buckets) = Some ?M"
    using assms(1) by (intro Math_max_Max) simp
  obtain h1 result where fr: "fresh_sets (?M + 1) h = (h1, result)"
    by (cases "fresh_sets (?M + 1) h")
  define arr where "arr = fold ?f buckets result"
  have run: "toBucketSets h buckets = Inr (h1, arr)"
    unfolding toBucketSets_def mx option.case fr arr_def by simp
  from fresh_sets_props[OF fr] have res: "result = [nxt h ..< nxt h + (?M + 1)]"
    and cells1: "\<And>r. cells h1 r = (if nxt h \<le> r \<and> r < nxt h + (?M + 1) then {||} else cells h r)"
    by simp_all
  have len_res: "length result = ?M + 1" by (simp add: res)
  have keys: "\<forall>k \<in> set (map fst buckets). k < length result"
    by (simp add: len_res less_Suc_eq_le)
  from fold_assign[OF assms(2) keys]
  have len: "length arr = ?M + 1"
    and nth: "\<And>k. k < length result \<Longrightarrow> arr ! k = (case map_of buckets k of Some s \<Rightarrow> s | None \<Rightarrow> result ! k)"
    by (simp_all add: arr_def len_res)
  have old: "cells h1 s = cells h s" if "s \<in> set (map snd buckets)" for s
  proof -
    from assms(3) that have "s < nxt h" by blast
    then show ?thesis by (simp add: cells1)
  qed
  have contents: "cells h1 (arr ! k) = (case map_of buckets k of Some s \<Rightarrow> cells h s | None \<Rightarrow> {||})"
    if "k < length arr" for k
  proof (cases "map_of buckets k")
    case None
    from that have "k < ?M + 1" by (simp add: len)
    then have "result ! k = nxt h + k" unfolding res by (rule nth_upt[OF add_strict_left_mono, simplified])
    with None that show ?thesis by (simp add: nth len len_res cells1)
  next
    case (Some s)
    then have "s \<in> set (map snd buckets)" by (force dest: map_of_SomeD)
    with Some that show ?thesis by (simp add: nth len len_res old)
  qed
  have entries: "k < length arr \<and> arr ! k = s \<and> cells h1 s = cells h s" if "(k, s) \<in> set buckets" for k s
  proof -
    from that assms(2) have m: "map_of buckets k = Some s" by simp
    from that have k: "k \<in> set (map fst buckets)" and s: "s \<in> set (map snd buckets)" by force+
    from keys k have kl: "k < length result" by blast
    with m have "arr ! k = s" by (simp add: nth)
    with kl old[OF s] show ?thesis by (simp add: len len_res)
  qed
  have disj: "one_bucket_per_card h1 arr" if one: "\<forall>c. length (buckets_of h buckets c) \<le> 1"
    unfolding one_bucket_per_card_def
  proof (intro allI impI)
    fix i j assume ij: "i < length arr" "j < length arr" "i \<noteq> j"
    show "cells h1 (arr ! i) |\<inter>| cells h1 (arr ! j) = {||}"
    proof (rule fset_eqI)
      fix c
      have False if ci: "c |\<in>| cells h1 (arr ! i)" and cj: "c |\<in>| cells h1 (arr ! j)"
      proof -
        from ci ij(1) obtain si where si: "map_of buckets i = Some si" "c |\<in>| cells h si"
          by (cases "map_of buckets i") (simp_all add: contents)
        from cj ij(2) obtain sj where sj: "map_of buckets j = Some sj" "c |\<in>| cells h sj"
          by (cases "map_of buckets j") (simp_all add: contents)
        from si have "i \<in> set (buckets_of h buckets c)"
          unfolding buckets_of_mem by (intro exI[of _ si]) (simp add: map_of_SomeD)
        moreover from sj have "j \<in> set (buckets_of h buckets c)"
          unfolding buckets_of_mem by (intro exI[of _ sj]) (simp add: map_of_SomeD)
        ultimately have "i = j" using one by (intro at_most_one_eq[of "buckets_of h buckets c"]) simp_all
        with ij(3) show False by simp
      qed
      then show "(c |\<in>| cells h1 (arr ! i) |\<inter>| cells h1 (arr ! j)) = (c |\<in>| {||})" by auto
    qed
  qed
  show ?thesis
  proof (intro exI[of _ h1] exI[of _ arr] conjI)
    show "toBucketSets h buckets = Inr (h1, arr)" by (rule run)
    show "length arr = ?M + 1" by (rule len)
    show "\<forall>k < length arr.
        cells h1 (arr ! k) = (case map_of buckets k of Some s \<Rightarrow> cells h s | None \<Rightarrow> {||})"
      using contents by blast
    show "\<forall>(k, s) \<in> set buckets. k < length arr \<and> arr ! k = s \<and> cells h1 s = cells h s"
      using entries by blast
    show "(\<forall>c. length (buckets_of h buckets c) \<le> 1) \<longrightarrow> one_bucket_per_card h1 arr"
      using disj by blast
  qed
qed

theorem toBucketSets_dense_witness:
  "\<exists>h' arr. toBucketSets heap_AB_C [(0, 0), (2, 1)] = Inr (h', arr) \<and> length arr = 3 \<and>
     cells h' (arr ! 0) = {|''A'', ''B''|} \<and> cells h' (arr ! 1) = {||} \<and>
     cells h' (arr ! 2) = {|''C''|} \<and> one_bucket_per_card h' arr"
proof -
  let ?m = "[(0, 0), (2, 1)] :: BucketMap"
  have ne: "?m \<noteq> []" and keys: "distinct (map fst ?m)"
    and alloc: "\<forall>s \<in> set (map snd ?m). s < nxt heap_AB_C"
    by (simp_all add: heap_AB_C_def)
  have one: "\<forall>c. length (buckets_of heap_AB_C ?m c) \<le> 1"
    by (simp add: buckets_of_def heap_AB_C_def)
  from toBucketSets_dense[OF ne keys alloc] obtain h' arr where
    run: "toBucketSets heap_AB_C ?m = Inr (h', arr)"
    and len: "length arr = Max (set (map fst ?m)) + 1"
    and contents: "\<forall>k < length arr.
        cells h' (arr ! k) = (case map_of ?m k of Some s \<Rightarrow> cells heap_AB_C s | None \<Rightarrow> {||})"
    and disj: "(\<forall>c. length (buckets_of heap_AB_C ?m c) \<le> 1) \<longrightarrow> one_bucket_per_card h' arr"
    by (elim exE conjE)
  from len have len3: "length arr = 3" by simp
  from contents[rule_format, of 0] len3 have c0: "cells h' (arr ! 0) = {|''A'', ''B''|}"
    by (simp add: heap_AB_C_def)
  from contents[rule_format, of 1] len3 have c1: "cells h' (arr ! 1) = {||}"
    by simp
  from contents[rule_format, of 2] len3 have c2: "cells h' (arr ! 2) = {|''C''|}"
    by (simp add: heap_AB_C_def)
  from disj one have "one_bucket_per_card h' arr" by (rule mp)
  with run len3 c0 c1 c2 show ?thesis by blast
qed

text \<open>
  Claim C8. The claim is that \<^verbatim>\<open>toBucketSets\<close> returns an empty array for the empty map.
  The maximum of no keys is \<open>-Infinity\<close>, and the array constructor throws a
  \<^verbatim>\<open>RangeError\<close> for this length.
\<close>

theorem toBucketSets_empty_map: "toBucketSets h [] = Inl RangeError"
  by (simp add: toBucketSets_def)

section \<open>Properties of getBucketRange\<close>

lemma fcard_pos_iff: "0 < fcard A \<longleftrightarrow> A \<noteq> {||}"
  by (metis fcard_0_eq neq0_conv)

lemma range_loop_ok:
  "range_ok h pre acc \<Longrightarrow> range_ok h (pre @ rest) (range_loop h rest (length pre) acc)"
proof (induction rest arbitrary: pre acc)
  case Nil
  then show ?case by (cases acc) simp
next
  case (Cons cards rest)
  obtain mn mx where acc: "acc = (mn, mx)" by (cases acc)
  let ?acc' = "if Set_size h cards > 0
        then ((if mn = None then Some (length pre) else mn), Some (length pre))
        else (mn, mx)"
  have "range_ok h (pre @ [cards]) ?acc'"
    using Cons.prems
    by (auto simp: range_ok_def acc Set_size_def fcard_pos_iff nth_append split: option.splits)
  from Cons.IH[OF this] show ?case by (simp add: acc)
qed

text \<open>
  Claim C10. Whenever \<^verbatim>\<open>getBucketRange\<close> returns a result, \<open>minBucket \<le> maxBucket\<close>, both
  are indices of the array, and the sets at both indices are non-empty.
\<close>

theorem getBucketRange_valid:
  assumes "getBucketRange h buckets = Some r"
  shows "minBucket r \<le> maxBucket r \<and> maxBucket r < length buckets \<and>
         cells h (buckets ! minBucket r) \<noteq> {||} \<and> cells h (buckets ! maxBucket r) \<noteq> {||}"
proof -
  have "range_ok h [] (None, None)" by (simp add: range_ok_def)
  from range_loop_ok[OF this, of buckets] assms show ?thesis
    by (auto simp: getBucketRange_def range_ok_def split: prod.splits option.splits)
qed

theorem getBucketRange_valid_witness:
  "getBucketRange heap_range [0, 1, 2, 3, 4] = Some \<lparr>minBucket = 1, maxBucket = 3\<rparr> \<and>
   cells heap_range ([0, 1, 2, 3, 4] ! 1) \<noteq> {||} \<and> cells heap_range ([0, 1, 2, 3, 4] ! 3) \<noteq> {||}"
proof -
  have r: "getBucketRange heap_range [0, 1, 2, 3, 4] = Some \<lparr>minBucket = 1, maxBucket = 3\<rparr>"
    by (simp add: getBucketRange_def heap_range_def Set_size_def fcard_pos_iff)
  from getBucketRange_valid[OF r] r show ?thesis by simp
qed

section \<open>Properties of practice\<close>

lemma practice_loop_mem:
  "c |\<in>| practice_loop h bs i n acc \<longleftrightarrow>
     c |\<in>| acc \<or> (\<exists>j < length bs. n mod 2 ^ (i + j) = 0 \<and> c |\<in>| cells h (bs ! j))"
proof (induction bs arbitrary: i acc)
  case Nil
  then show ?case by simp
next
  case (Cons cards rest)
  have split: "(\<exists>j < length (cards # rest). P j) \<longleftrightarrow> P 0 \<or> (\<exists>j < length rest. P (Suc j))" for P
    by (auto simp: less_Suc_eq_0_disj)
  show ?case
    unfolding practice_loop.simps Cons.IH split by auto
qed

text \<open>
  Claim C2. For a dense bucket array in which each card appears in at most one bucket and
  a day \<open>n\<close>, \<^verbatim>\<open>practice\<close> returns exactly the union of the sets at the indices \<open>i\<close>
  with \<open>n mod 2 ^ i = 0\<close>; it includes all cards of bucket 0, and no card of a bucket
  whose index \<open>i\<close> has \<open>n mod 2 ^ i \<noteq> 0\<close>.
\<close>

theorem practice_due:
  assumes "one_bucket_per_card h arr"
  shows "fset (practice h arr n) = (\<Union>i \<in> {i. i < length arr \<and> n mod 2 ^ i = 0}. fset (cells h (arr ! i))) \<and>
    (arr \<noteq> [] \<longrightarrow> cells h (arr ! 0) |\<subseteq>| practice h arr n) \<and>
    (\<forall>i < length arr. n mod 2 ^ i \<noteq> 0 \<longrightarrow> cells h (arr ! i) |\<inter>| practice h arr n = {||})"
proof (intro conjI)
  have mem: "c |\<in>| practice h arr n \<longleftrightarrow> (\<exists>j < length arr. n mod 2 ^ j = 0 \<and> c |\<in>| cells h (arr ! j))" for c
    by (simp add: practice_def practice_loop_mem)
  show "fset (practice h arr n) = (\<Union>i \<in> {i. i < length arr \<and> n mod 2 ^ i = 0}. fset (cells h (arr ! i)))"
    by (auto simp: mem mod_eq_0_iff_dvd)
  show "arr \<noteq> [] \<longrightarrow> cells h (arr ! 0) |\<subseteq>| practice h arr n"
    by (auto simp: mem intro!: exI[of _ 0])
  show "\<forall>i < length arr. n mod 2 ^ i \<noteq> 0 \<longrightarrow> cells h (arr ! i) |\<inter>| practice h arr n = {||}"
  proof (intro allI impI)
    fix i assume i: "i < length arr" "n mod 2 ^ i \<noteq> 0"
    show "cells h (arr ! i) |\<inter>| practice h arr n = {||}"
    proof (rule fset_eqI)
      fix c
      have False if c1: "c |\<in>| cells h (arr ! i)" and c2: "c |\<in>| practice h arr n"
      proof -
        from c2 have "\<exists>j < length arr. n mod 2 ^ j = 0 \<and> c |\<in>| cells h (arr ! j)"
          by (simp only: mem)
        then obtain j where j: "j < length arr" "n mod 2 ^ j = 0" "c |\<in>| cells h (arr ! j)"
          by (elim exE conjE)
        have "i \<noteq> j"
        proof
          assume "i = j"
          with i(2) j(2) show False by simp
        qed
        with assms i(1) j(1) have d: "cells h (arr ! i) |\<inter>| cells h (arr ! j) = {||}"
          by (simp add: one_bucket_per_card_def)
        from c1 j(3) have "c |\<in>| cells h (arr ! i) |\<inter>| cells h (arr ! j)" by simp
        with d show False by simp
      qed
      then show "(c |\<in>| cells h (arr ! i) |\<inter>| practice h arr n) = (c |\<in>| {||})"
        by auto
    qed
  qed
qed

theorem practice_due_witness:
  "one_bucket_per_card heap_ABC [0, 1, 2] \<and>
   cells heap_ABC 0 |\<subseteq>| practice heap_ABC [0, 1, 2] 2 \<and>
   cells heap_ABC 2 |\<inter>| practice heap_ABC [0, 1, 2] 2 = {||}"
proof -
  have one: "one_bucket_per_card heap_ABC [0, 1, 2]"
    by (simp add: one_bucket_per_card_def heap_ABC_def numeral_3_eq_3 less_Suc_eq)
  note due = practice_due[OF one, of 2]
  from due[THEN conjunct2, THEN conjunct1]
  have "cells heap_ABC ([0, 1, 2] ! 0) |\<subseteq>| practice heap_ABC [0, 1, 2] 2"
    by simp
  moreover from due[THEN conjunct2, THEN conjunct2, rule_format, of 2]
  have "cells heap_ABC ([0, 1, 2] ! 2) |\<inter>| practice heap_ABC [0, 1, 2] 2 = {||}"
    by simp
  ultimately show ?thesis using one by simp
qed

section \<open>Properties of getHint\<close>

lemma trim_Nil_iff: "trim s = [] \<longleftrightarrow> (\<forall>c \<in> set s. is_ws c)"
proof -
  have "trim s = [] \<longleftrightarrow> (\<forall>x \<in> set (dropWhile is_ws s). is_ws x)"
    by (simp add: trim_def dropWhile_eq_Nil_conv)
  also have "\<dots> \<longleftrightarrow> dropWhile is_ws s = []"
  proof
    assume all: "\<forall>x \<in> set (dropWhile is_ws s). is_ws x"
    show "dropWhile is_ws s = []"
    proof (rule ccontr)
      assume ne: "dropWhile is_ws s \<noteq> []"
      then have "\<not> is_ws (hd (dropWhile is_ws s))" by (rule hd_dropWhile)
      moreover from ne have "hd (dropWhile is_ws s) \<in> set (dropWhile is_ws s)" by simp
      ultimately show False using all by blast
    qed
  qed (simp del: dropWhile_eq_Nil_conv)
  also have "\<dots> \<longleftrightarrow> (\<forall>c \<in> set s. is_ws c)" by (simp add: dropWhile_eq_Nil_conv)
  finally show ?thesis .
qed

text \<open>
  Claim C7. \<^verbatim>\<open>getHint\<close> returns the hint when the hint is non-empty after trimming;
  otherwise the text "No hint available" when the front is empty after trimming;
  otherwise the front when it has at most 2 code units; otherwise the first code unit of
  the front, \<open>length - 2\<close> asterisks and the last code unit of the front.
\<close>

theorem getHint_cases:
  "(trim (hint c) \<noteq> [] \<longrightarrow> getHint c = hint c) \<and>
   (trim (hint c) = [] \<and> trim (front c) = [] \<longrightarrow> getHint c = js_lit ''No hint available'') \<and>
   (trim (hint c) = [] \<and> trim (front c) \<noteq> [] \<and> length (front c) \<le> 2 \<longrightarrow> getHint c = front c) \<and>
   (trim (hint c) = [] \<and> trim (front c) \<noteq> [] \<and> length (front c) > 2 \<longrightarrow>
      getHint c = hd (front c) # replicate (length (front c) - 2) (of_char CHR ''*'') @ [last (front c)])"
proof -
  have "front c ! 0 = hd (front c)" "front c ! (length (front c) - 1) = last (front c)"
    if "length (front c) > 2"
    using that by (cases "front c"; simp add: hd_conv_nth last_conv_nth)+
  then show ?thesis
    by (simp add: getHint_def Let_def)
qed

theorem getHint_cases_witness:
  "getHint (mk_card ''Algorithm'' []) = js_lit ''A*******m'' \<and>
   getHint (mk_card ''Hi'' []) = js_lit ''Hi'' \<and>
   getHint (mk_card ''Algorithm'' ''use DP'') = js_lit ''use DP'' \<and>
   getHint (mk_card ''  '' '' '') = js_lit ''No hint available''"
proof -
  have e: "trim (js_lit []) = []" "trim (js_lit '' '') = []" "trim (js_lit ''  '') = []"
    and n: "trim (js_lit ''use DP'') \<noteq> []" "trim (js_lit ''Hi'') \<noteq> []"
      "trim (js_lit ''Algorithm'') \<noteq> []"
    by (simp_all add: trim_def js_lit_def is_ws_def)
  have "getHint (mk_card ''Algorithm'' []) = js_lit ''A*******m''"
    using getHint_cases[of "mk_card ''Algorithm'' []"] e n
    by (simp add: mk_card_def) (simp add: js_lit_def)
  moreover have "getHint (mk_card ''Hi'' []) = js_lit ''Hi''"
    using getHint_cases[of "mk_card ''Hi'' []"] e n
    by (simp add: mk_card_def) (simp add: js_lit_def)
  moreover have "getHint (mk_card ''Algorithm'' ''use DP'') = js_lit ''use DP''"
    using getHint_cases[of "mk_card ''Algorithm'' ''use DP''"] n
    by (simp add: mk_card_def)
  moreover have "getHint (mk_card ''  '' '' '') = js_lit ''No hint available''"
    using getHint_cases[of "mk_card ''  '' '' ''"] e
    by (simp add: mk_card_def)
  ultimately show ?thesis by simp
qed

section \<open>Properties of computeProgress\<close>

lemma buckets_loop_eq:
  "distinct (map fst b) \<Longrightarrow>
   buckets_loop h b (t, dst, bsum) =
     (t + total_cards h b,
      (\<lambda>k. case map_of b k of Some s \<Rightarrow> Some (fcard (cells h s)) | None \<Rightarrow> dst k),
      bsum + (\<Sum>(k, s) \<leftarrow> b. k * fcard (cells h s)))"
proof (induction b arbitrary: t dst bsum)
  case Nil
  then show ?case by (simp add: total_cards_def)
next
  case (Cons e b)
  obtain k0 s0 where e: "e = (k0, s0)" by (cases e)
  from Cons.prems have d: "distinct (map fst b)" and k0: "map_of b k0 = None"
    by (auto simp: e map_of_eq_None_iff)
  have "(\<lambda>k. case map_of b k of Some s \<Rightarrow> Some (fcard (cells h s))
              | None \<Rightarrow> (dst(k0 \<mapsto> fcard (cells h s0))) k) =
        (\<lambda>k. case map_of ((k0, s0) # b) k of Some s \<Rightarrow> Some (fcard (cells h s)) | None \<Rightarrow> dst k)"
    using k0 by (auto simp: fun_eq_iff split: option.splits)
  then show ?case
    using Cons.IH[OF d] by (simp add: e Let_def Set_size_def total_cards_def)
qed

lemma history_loop_eq:
  "history_loop hs (hist, attempts, correct) =
     ((\<lambda>d. if filter (\<lambda>e. day e = d) hs = [] then hist d
            else Some ((case hist d of None \<Rightarrow> 0 | Some v \<Rightarrow> v) + length (filter (\<lambda>e. day e = d) hs))),
      attempts + length hs,
      correct + length (filter (\<lambda>e. difficulty e = Hard \<or> difficulty e = Easy) hs))"
proof (induction hs arbitrary: hist attempts correct)
  case Nil
  then show ?case by simp
next
  case (Cons e hs)
  show ?case
    unfolding history_loop.simps Cons.IH
    by (auto simp: fun_eq_iff split: option.splits)
qed

text \<open>
  Claim C6. For every bucket map and history, \<^verbatim>\<open>computeProgress\<close> returns
  \<open>totalCards\<close>, the sum of the sizes of the sets of all buckets;
  \<open>bucketDistribution\<close>, which maps each key of the map to the size of its set (and no
  other key); \<open>averageBucket\<close>, the quotient of the sum of bucket number times size by
  \<open>totalCards\<close>, or 0 when \<open>totalCards\<close> is 0; \<open>practiceHistory\<close>, which maps each day
  of the history to the number of entries of that day (and no other day);
  \<open>accuracyRate\<close>, the number of entries with difficulty Hard or Easy divided by the
  number of entries, times 100, or 0 when the history is empty. The quotients and the
  product are those of the arithmetic \<open>ops\<close>.
\<close>

theorem computeProgress_stats:
  assumes "distinct (map fst buckets)"
  shows "let r = computeProgress ops h buckets history;
             n = (\<Sum>(k, s) \<leftarrow> buckets. fcard (cells h s));
             correct = length (filter (\<lambda>e. difficulty e = Hard \<or> difficulty e = Easy) history)
         in totalCards r = n \<and>
            (\<forall>k. bucketDistribution r k =
                  (case map_of buckets k of Some s \<Rightarrow> Some (fcard (cells h s)) | None \<Rightarrow> None)) \<and>
            averageBucket r =
              (if n = 0 then fnum ops 0
               else fdiv ops (fnum ops (\<Sum>(k, s) \<leftarrow> buckets. k * fcard (cells h s))) (fnum ops n)) \<and>
            (\<forall>d. practiceHistory r d =
                  (if filter (\<lambda>e. day e = d) history = [] then None
                   else Some (length (filter (\<lambda>e. day e = d) history)))) \<and>
            accuracyRate r =
              (if history = [] then fnum ops 0
               else fmul ops (fdiv ops (fnum ops correct) (fnum ops (length history))) (fnum ops 100))"
proof -
  have b: "buckets_loop h buckets (0, Map.empty, 0) =
     (total_cards h buckets,
      (\<lambda>k. case map_of buckets k of Some s \<Rightarrow> Some (fcard (cells h s)) | None \<Rightarrow> None),
      (\<Sum>(k, s) \<leftarrow> buckets. k * fcard (cells h s)))"
    using buckets_loop_eq[OF assms, of h 0 Map.empty 0] by simp
  have hl: "history_loop history (Map.empty, 0, 0) =
     ((\<lambda>d. if filter (\<lambda>e. day e = d) history = [] then None
            else Some (length (filter (\<lambda>e. day e = d) history))),
      length history,
      length (filter (\<lambda>e. difficulty e = Hard \<or> difficulty e = Easy) history))"
    unfolding history_loop_eq by (simp add: fun_eq_iff)
  define n where "n = (\<Sum>(k, s) \<leftarrow> buckets. fcard (cells h s))"
  show ?thesis
    unfolding computeProgress_def b hl Let_def prod.case total_cards_def n_def[symmetric]
    by simp
qed

theorem computeProgress_stats_witness:
  "totalCards stats_example = 3 \<and>
   bucketDistribution stats_example 0 = Some 2 \<and> bucketDistribution stats_example 1 = None \<and>
   bucketDistribution stats_example 2 = Some 1 \<and>
   averageBucket stats_example = 2 / 3 \<and>
   practiceHistory stats_example 1 = Some 2 \<and> practiceHistory stats_example 2 = Some 1 \<and>
   practiceHistory stats_example 3 = None \<and>
   accuracyRate stats_example = 200 / 3"
proof -
  have d: "distinct (map fst ([(0, 0), (2, 1)] :: BucketMap))" by simp
  note sizes = heap_AB_C_def fcard_finsert_if fcard_fempty
  note st = computeProgress_stats[OF d, of exact_ops heap_AB_C history_3, unfolded Let_def,
      folded stats_example_def]
  from st have tc: "totalCards stats_example = 3" by (simp add: sizes)
  from st have bd: "bucketDistribution stats_example k =
      (case map_of [(0, 0), (2, 1)] k of Some s \<Rightarrow> Some (fcard (cells heap_AB_C s)) | None \<Rightarrow> None)" for k
    by blast
  from st have avg: "averageBucket stats_example = 2 / 3"
    by (simp add: sizes exact_ops_def)
  from st have ph: "practiceHistory stats_example d =
      (if filter (\<lambda>e. day e = d) history_3 = [] then None
       else Some (length (filter (\<lambda>e. day e = d) history_3)))" for d
    by blast
  from st have ar: "accuracyRate stats_example = 200 / 3"
    by (simp add: history_3_def exact_ops_def)
  show ?thesis
    using tc avg ar bd[of 0] bd[of 1] bd[of 2] ph[of 1] ph[of 2] ph[of 3]
    by (simp add: sizes history_3_def)
qed

end
